theory Spec2Isabelle
  imports Main
begin

section \<open>The table renderer of edit\_table.py\<close>

text \<open>
  \<^verbatim>\<open>display_table\<close> draws a table into a Streamlit page. It returns nothing: all it does
  is call the host (\<^verbatim>\<open>st.html\<close>, \<^verbatim>\<open>st.container\<close>, \<^verbatim>\<open>st.columns\<close>, \<^verbatim>\<open>markdown\<close>,
  \<^verbatim>\<open>write\<close>, \<^verbatim>\<open>st.button\<close>) and, when a button reports a click, the edit callback.
  The model therefore computes the sequence of these calls in program order, together
  with the Python exception that ended the run, if any. Elements drawn before an
  exception stay in the sequence, as they stay on the page.
\<close>

subsection \<open>Python values and exceptions\<close>

text \<open>
  The exceptions the function can raise: an unbound local variable (the loop variable
  \<^verbatim>\<open>i\<close> read before any assignment), a list index out of range (\<^verbatim>\<open>columns[i]\<close>,
  \<^verbatim>\<open>columns[i+1]\<close>, \<^verbatim>\<open>row[0]\<close>), and the host's rejection of a column specification.
\<close>

datatype py_error = UnboundLocalError | IndexError | StreamlitAPIException

text \<open>
  \<^verbatim>\<open>column_formatting\<close> is \<^verbatim>\<open>None\<close>, an integer count, or a list of relative widths
  (integer weights such as \<^verbatim>\<open>[1, 2, 1]\<close>).
\<close>

datatype column_spec = ColCount int | ColWeights "int list"

text \<open>Python truthiness of the optional arguments, as \<^verbatim>\<open>if x\<close> and \<^verbatim>\<open>not x\<close> read them.\<close>

fun truthy_spec :: "column_spec option \<Rightarrow> bool" where
  "truthy_spec None = False"
| "truthy_spec (Some (ColCount n)) = (n \<noteq> 0)"
| "truthy_spec (Some (ColWeights ws)) = (ws \<noteq> [])"

fun truthy_str :: "string option \<Rightarrow> bool" where
  "truthy_str None = False"
| "truthy_str (Some s) = (s \<noteq> [])"

text \<open>\<^verbatim>\<open>f"{j}"\<close> for a non-negative integer: its decimal digits, most significant first.\<close>

definition digit_char :: "nat \<Rightarrow> char" where
  "digit_char d = ''0123456789'' ! d"

fun str_nat :: "nat \<Rightarrow> string" where
  "str_nat n = (if n < 10 then [digit_char n] else str_nat (n div 10) @ [digit_char (n mod 10)])"

declare str_nat.simps [simp del]

subsection \<open>The host\<close>

text \<open>
  What the function reads from Streamlit: the theme's secondary background colour
  (\<^verbatim>\<open>st.get_option("theme.secondaryBackgroundColor")\<close>, as the text the f-string
  inserts), and the return value of \<^verbatim>\<open>st.button\<close> for a given key, which is true in
  the run that follows a click on that button.
\<close>

record host =
  secondaryBackgroundColor :: string
  button_clicked :: "string \<Rightarrow> bool"

text \<open>
  \<^verbatim>\<open>st.columns(spec)\<close> returns a Python list with one column per unit of an integer
  count, or one per weight. Streamlit rejects a count below one, an empty list and a
  weight that is not positive. (Streamlit is not part of this repository; this is its
  documented behaviour.)
\<close>

fun st_columns :: "column_spec \<Rightarrow> py_error + nat" where
  "st_columns (ColCount n) = (if n \<le> 0 then Inl StreamlitAPIException else Inr (nat n))"
| "st_columns (ColWeights ws) =
     (if ws = [] \<or> list_ex (\<lambda>w. w \<le> 0) ws then Inl StreamlitAPIException
      else Inr (length ws))"

text \<open>
  One host call. The cell, button and column calls carry the index \<open>j\<close> of the row
  whose container (\<^verbatim>\<open>with st.container(key=f"row_{j}")\<close>) they are drawn in; the slot is
  the index into that row's \<^verbatim>\<open>columns\<close> list.
\<close>

datatype event =
    Html string
  | Container string
  | Columns nat column_spec
  | Markdown nat nat string
  | Write nat nat string
  | Button nat nat string
  | EditCall string

subsection \<open>The arguments of display\_table\<close>

record options =
  column_formatting :: "column_spec option"
  edit_function :: bool
  has_header :: bool
  header_color :: "string option"
  alternating_row_colors :: bool

text \<open>
  \<^verbatim>\<open>edit_function\<close> is a callable or \<^verbatim>\<open>False\<close>; the field says whether one was given.
  What the callable does is the caller's business: a call \<^verbatim>\<open>edit_function(x)\<close> is
  recorded as \<open>EditCall x\<close>. The defaults of the signature:
\<close>

definition default_options :: options where
  "default_options =
     \<lparr> column_formatting = None, edit_function = False, has_header = True,
       header_color = None, alternating_row_colors = False \<rparr>"

subsection \<open>One row\<close>

text \<open>Lines 64 to 70: the background of row \<open>j\<close>.\<close>

definition alternating_style :: "host \<Rightarrow> nat \<Rightarrow> bool \<Rightarrow> string" where
  "alternating_style h j alt =
     (if alt \<and> (j + 1) mod 2 \<noteq> 0 then secondaryBackgroundColor h else ''transparent'')"

fun row_style :: "host \<Rightarrow> nat \<Rightarrow> string option \<Rightarrow> bool \<Rightarrow> string" where
  "row_style h j (Some c) alt = (if j = 0 \<and> c \<noteq> [] then c else alternating_style h j alt)"
| "row_style h j None alt = alternating_style h j alt"

text \<open>The keys: \<^verbatim>\<open>f"row_{j}"\<close>, \<^verbatim>\<open>f'edit_{j}'\<close> and the fixed key of the table.\<close>

definition row_key :: "nat \<Rightarrow> string" where
  "row_key j = ''row_'' @ str_nat j"

definition edit_key :: "nat \<Rightarrow> string" where
  "edit_key j = ''edit_'' @ str_nat j"

definition table_key :: string where
  "table_key = ''rnd_table''"

text \<open>Line 86: the style sheet that colours the container of row \<open>j\<close>.\<close>

definition style_html :: "nat \<Rightarrow> string \<Rightarrow> string" where
  "style_html j style =
     ''<style> .st-key-row_'' @ str_nat j @ '' { background-color: '' @ style @ '';} </style>''"

text \<open>Line 72: the argument of \<^verbatim>\<open>st.columns\<close>.\<close>

definition column_request :: "column_spec option \<Rightarrow> string list \<Rightarrow> column_spec" where
  "column_request cf row =
     (case cf of
        None \<Rightarrow> ColCount (int (length row))
      | Some spec \<Rightarrow> if \<not> truthy_spec cf then ColCount (int (length row)) else spec)"

text \<open>Line 74: \<^verbatim>\<open>row[1:] if edit_function else row\<close>.\<close>

definition visible_cells :: "bool \<Rightarrow> string list \<Rightarrow> string list" where
  "visible_cells edit row = (if edit then drop 1 row else row)"

text \<open>Lines 75 to 78: one cell, in slot \<open>k\<close> of row \<open>j\<close>.\<close>

definition cell_event :: "nat \<Rightarrow> nat \<Rightarrow> string \<Rightarrow> event" where
  "cell_event j k col =
     (if j = 0 then Markdown j k (''***'' @ col @ ''***'') else Write j k col)"

text \<open>
  Lines 74 to 78: the loop \<^verbatim>\<open>for i, col in enumerate(...)\<close> over the cells still to be
  drawn. \<open>n\<close> is the length of \<^verbatim>\<open>columns\<close>, \<open>k\<close> the next value of the counter, and the
  last argument the current binding of the Python variable \<^verbatim>\<open>i\<close> (\<open>None\<close> while it is
  unbound). Each iteration binds \<^verbatim>\<open>i\<close> before it reads \<^verbatim>\<open>columns[i]\<close>. The loop returns
  the calls it made and either the exception or the binding \<^verbatim>\<open>i\<close> is left with: the
  variable belongs to the function, not to the loop, so it survives into the next row.
\<close>

fun cell_loop :: "nat \<Rightarrow> nat \<Rightarrow> nat \<Rightarrow> string list \<Rightarrow> nat option \<Rightarrow> event list \<times> (py_error + nat option)" where
  "cell_loop j n k [] i = ([], Inr i)"
| "cell_loop j n k (col # cols) i =
     (if k < n then
        (case cell_loop j n (Suc k) cols (Some k) of
           (evs, r) \<Rightarrow> (cell_event j k col # evs, r))
      else ([], Inl IndexError))"

text \<open>Line 80: whether row \<open>j\<close> gets the Edit button.\<close>

definition shows_edit :: "options \<Rightarrow> nat \<Rightarrow> bool" where
  "shows_edit opts j = (edit_function opts \<and> (j \<noteq> 0 \<or> \<not> has_header opts))"

text \<open>
  Lines 81 to 84: \<^verbatim>\<open>with columns[i+1]\<close> reads \<^verbatim>\<open>i\<close> (unbound: UnboundLocalError), then
  indexes the list (out of range: IndexError); the button is drawn, and when it
  reports a click the callback gets \<^verbatim>\<open>row[0]\<close> (IndexError on an empty row).
\<close>

definition edit_button :: "host \<Rightarrow> nat \<Rightarrow> nat \<Rightarrow> string list \<Rightarrow> nat option \<Rightarrow> event list \<times> (py_error + nat option)" where
  "edit_button h j n row i =
     (case i of
        None \<Rightarrow> ([], Inl UnboundLocalError)
      | Some iv \<Rightarrow>
          if iv + 1 < n then
            (if button_clicked h (edit_key j) then
               (case row of
                  [] \<Rightarrow> ([Button j (iv + 1) (edit_key j)], Inl IndexError)
                | x # xs \<Rightarrow> ([Button j (iv + 1) (edit_key j), EditCall x], Inr i))
             else ([Button j (iv + 1) (edit_key j)], Inr i))
          else ([], Inl IndexError))"

text \<open>Lines 72 to 84: the body of \<^verbatim>\<open>with st.container(key=f"row_{j}")\<close>.\<close>

definition render_row :: "host \<Rightarrow> options \<Rightarrow> nat \<Rightarrow> string list \<Rightarrow> nat option \<Rightarrow> event list \<times> (py_error + nat option)" where
  "render_row h opts j row i =
     (case st_columns (column_request (column_formatting opts) row) of
        Inl e \<Rightarrow> ([], Inl e)
      | Inr n \<Rightarrow>
          (case cell_loop j n 0 (visible_cells (edit_function opts) row) i of
             (evs, Inl e) \<Rightarrow> (Columns j (column_request (column_formatting opts) row) # evs, Inl e)
           | (evs, Inr i') \<Rightarrow>
               if shows_edit opts j then
                 (case edit_button h j n row i' of
                    (bevs, r) \<Rightarrow>
                      (Columns j (column_request (column_formatting opts) row) # evs @ bevs, r))
               else (Columns j (column_request (column_formatting opts) row) # evs, Inr i')))"

subsection \<open>The table\<close>

text \<open>
  Lines 62 to 86: the loop over the rows, from row \<open>j\<close> on, with the binding of \<^verbatim>\<open>i\<close>
  passed from one row to the next.
\<close>

fun rows_loop :: "host \<Rightarrow> options \<Rightarrow> nat \<Rightarrow> string list list \<Rightarrow> nat option \<Rightarrow> event list \<times> py_error option" where
  "rows_loop h opts j [] i = ([], None)"
| "rows_loop h opts j (row # rows) i =
     (case render_row h opts j row i of
        (evs, Inl e) \<Rightarrow> (Container (row_key j) # evs, Some e)
      | (evs, Inr i') \<Rightarrow>
          (case rows_loop h opts (Suc j) rows i' of
             (evs', r) \<Rightarrow>
               (Container (row_key j) # evs
                  @ [Html (style_html j
                       (row_style h j (header_color opts) (alternating_row_colors opts)))]
                  @ evs', r)))"

text \<open>Lines 59 to 86.\<close>

definition display_table :: "host \<Rightarrow> string list list \<Rightarrow> options \<Rightarrow> event list \<times> py_error option" where
  "display_table h table_data opts =
     (case rows_loop h opts 0 table_data None of
        (evs, r) \<Rightarrow>
          (Html ''<style> .st-key-rnd_table { display: block;} </style>''
             # Container table_key # evs, r))"

subsection \<open>Reading a run\<close>

text \<open>The row in whose container a call draws, for the calls made inside one.\<close>

fun in_row :: "nat \<Rightarrow> event \<Rightarrow> bool" where
  "in_row j (Columns j' spec) = (j' = j)"
| "in_row j (Markdown j' k s) = (j' = j)"
| "in_row j (Write j' k s) = (j' = j)"
| "in_row j (Button j' k key) = (j' = j)"
| "in_row j _ = False"

fun is_cell :: "event \<Rightarrow> bool" where
  "is_cell (Markdown j k s) = True"
| "is_cell (Write j k s) = True"
| "is_cell _ = False"

fun is_button :: "event \<Rightarrow> bool" where
  "is_button (Button j k key) = True"
| "is_button _ = False"

text \<open>The cells drawn in row \<open>j\<close>, and the Edit buttons drawn in row \<open>j\<close>, in order.\<close>

definition row_cells :: "event list \<Rightarrow> nat \<Rightarrow> event list" where
  "row_cells evs j = filter (\<lambda>e. is_cell e \<and> in_row j e) evs"

definition row_buttons :: "event list \<Rightarrow> nat \<Rightarrow> event list" where
  "row_buttons evs j = filter (\<lambda>e. is_button e \<and> in_row j e) evs"

text \<open>The arguments of the calls of the edit callback, in order.\<close>

fun call_of :: "event \<Rightarrow> string option" where
  "call_of (EditCall x) = Some x"
| "call_of _ = None"

definition edit_calls :: "event list \<Rightarrow> string list" where
  "edit_calls evs = List.map_filter call_of evs"

text \<open>The identity keys handed to the host, containers and buttons alike.\<close>

fun key_of :: "event \<Rightarrow> string option" where
  "key_of (Container key) = Some key"
| "key_of (Button j k key) = Some key"
| "key_of _ = None"

definition keys_of :: "event list \<Rightarrow> string list" where
  "keys_of evs = List.map_filter key_of evs"

text \<open>
  The cells a row is meant to show, each in the slot of its position: what the loop
  of lines 74 to 78 draws when no slot is missing.
\<close>

definition drawn_cells :: "nat \<Rightarrow> string list \<Rightarrow> event list" where
  "drawn_cells j cols = map (\<lambda>(k, col). cell_event j k col) (List.enumerate 0 cols)"

text \<open>The host of a run in which nothing was clicked, and of one after a click.\<close>

definition idle_host :: "string \<Rightarrow> host" where
  "idle_host secondary =
     \<lparr> secondaryBackgroundColor = secondary, button_clicked = (\<lambda>key. False) \<rparr>"

definition clicked_host :: "string \<Rightarrow> string \<Rightarrow> host" where
  "clicked_host secondary clicked =
     \<lparr> secondaryBackgroundColor = secondary, button_clicked = (\<lambda>key. key = clicked) \<rparr>"

section \<open>Properties\<close>

subsection \<open>Keys\<close>

lemma digit_char_inj: "a < 10 \<Longrightarrow> b < 10 \<Longrightarrow> digit_char a = digit_char b \<Longrightarrow> a = b"
proof -
  assume a: "a < 10" and b: "b < 10" and e: "digit_char a = digit_char b"
  have d: "distinct ''0123456789''" by simp
  have "length ''0123456789'' = 10" by simp
  with a b d e show ?thesis
    unfolding digit_char_def by (metis nth_eq_iff_index_eq)
qed

lemma str_nat_nonempty: "str_nat n \<noteq> []"
  by (subst str_nat.simps) simp

lemma str_nat_long: "10 \<le> n \<Longrightarrow> 2 \<le> length (str_nat n)"
  using str_nat_nonempty[of "n div 10"]
  by (subst str_nat.simps) (cases "str_nat (n div 10)"; simp)

lemma str_nat_short: "n < 10 \<Longrightarrow> length (str_nat n) = 1"
  by (simp add: str_nat.simps[of n])

lemma str_nat_inj: "str_nat m = str_nat n \<Longrightarrow> m = n"
proof (induction m arbitrary: n rule: str_nat.induct)
  case (1 m)
  consider "m < 10" "n < 10" | "m < 10" "10 \<le> n" | "10 \<le> m" "n < 10" | "10 \<le> m" "10 \<le> n"
    by linarith
  then show ?case
  proof cases
    case 1
    with \<open>str_nat m = str_nat n\<close> show ?thesis
      by (simp add: str_nat.simps[of m] str_nat.simps[of n] digit_char_inj)
  next
    case 2
    then show ?thesis
      using str_nat_long[of n] str_nat_short[of m] \<open>str_nat m = str_nat n\<close> by simp
  next
    case 3
    then show ?thesis
      using str_nat_long[of m] str_nat_short[of n] \<open>str_nat m = str_nat n\<close> by simp
  next
    case 4
    with \<open>str_nat m = str_nat n\<close>
    have "str_nat (m div 10) @ [digit_char (m mod 10)] = str_nat (n div 10) @ [digit_char (n mod 10)]"
      by (simp add: str_nat.simps[of m] str_nat.simps[of n])
    then have hi: "str_nat (m div 10) = str_nat (n div 10)"
      and lo: "digit_char (m mod 10) = digit_char (n mod 10)"
      by simp_all
    from 4 have "\<not> m < 10" by simp
    from "1.IH"[OF this hi] have q: "m div 10 = n div 10" .
    from lo have r: "m mod 10 = n mod 10" by (intro digit_char_inj) simp_all
    from q r show ?thesis by (metis div_mult_mod_eq)
  qed
qed

lemma row_key_inj [simp]: "(row_key a = row_key b) = (a = b)"
  by (auto simp: row_key_def dest: str_nat_inj)

lemma edit_key_inj [simp]: "(edit_key a = edit_key b) = (a = b)"
  by (auto simp: edit_key_def dest: str_nat_inj)

lemma keys_apart [simp]:
  "row_key a \<noteq> edit_key b" "edit_key b \<noteq> row_key a"
  "row_key a \<noteq> table_key" "edit_key b \<noteq> table_key"
  "table_key \<noteq> row_key a" "table_key \<noteq> edit_key b"
  by (simp_all add: row_key_def edit_key_def table_key_def)

subsection \<open>The cell loop\<close>

lemma map_filter_app: "List.map_filter f (xs @ ys) = List.map_filter f xs @ List.map_filter f ys"
  by (simp add: map_filter_def)

lemma cell_event_props [simp]:
  "is_cell (cell_event j k c)" "in_row j' (cell_event j k c) = (j = j')"
  "\<not> is_button (cell_event j k c)" "call_of (cell_event j k c) = None"
  "key_of (cell_event j k c) = None"
  by (simp_all add: cell_event_def)

lemma cell_loop_fst:
  "fst (cell_loop j n k cols i) = map (\<lambda>(k', col). cell_event j k' col) (zip [k..<n] cols)"
proof (induction cols arbitrary: k i)
  case Nil
  then show ?case by simp
next
  case (Cons col cols)
  show ?case
  proof (cases "k < n")
    case True
    then have "[k..<n] = k # [Suc k..<n]" by (simp add: upt_conv_Cons)
    with True Cons[of "Suc k" "Some k"] show ?thesis
      by (cases "cell_loop j n (Suc k) cols (Some k)") simp
  next
    case False
    then show ?thesis by simp
  qed
qed

lemma cell_loop_snd:
  "snd (cell_loop j n k cols i) =
     (if cols = [] then Inr i
      else if k + length cols \<le> n then Inr (Some (k + length cols - 1))
      else Inl IndexError)"
proof (induction cols arbitrary: k i)
  case Nil
  then show ?case by simp
next
  case (Cons col cols)
  show ?case
  proof (cases "k < n")
    case True
    with Cons[of "Suc k" "Some k"] show ?thesis
      by (cases "cell_loop j n (Suc k) cols (Some k)") auto
  next
    case False
    then show ?thesis by simp
  qed
qed

lemma zip_upt_enumerate: "k + length cols \<le> n \<Longrightarrow> zip [k..<n] cols = List.enumerate k cols"
proof (induction cols arbitrary: k)
  case Nil
  then show ?case by simp
next
  case (Cons col cols)
  then have "[k..<n] = k # [Suc k..<n]" by (simp add: upt_conv_Cons)
  with Cons show ?case by simp
qed

lemma zip_upt_take: "n \<le> k + length cols \<Longrightarrow> zip [k..<n] cols = List.enumerate k (take (n - k) cols)"
proof (induction cols arbitrary: k)
  case Nil
  then show ?case by simp
next
  case (Cons col cols)
  show ?case
  proof (cases "k < n")
    case True
    then have u: "[k..<n] = k # [Suc k..<n]" by (simp add: upt_conv_Cons)
    from True have t: "take (n - k) (col # cols) = col # take (n - Suc k) cols"
      by (simp add: take_Cons')
    from Cons.prems have "n \<le> Suc k + length cols" by simp
    from Cons.IH[OF this] u t show ?thesis by simp
  next
    case False
    then show ?thesis by simp
  qed
qed

lemma cell_loop_ok:
  "k + length cols \<le> n \<Longrightarrow>
   cell_loop j n k cols i =
     (map (\<lambda>(k', col). cell_event j k' col) (List.enumerate k cols),
      Inr (if cols = [] then i else Some (k + length cols - 1)))"
  using cell_loop_fst[of j n k cols i] cell_loop_snd[of j n k cols i]
  by (simp add: zip_upt_enumerate prod_eq_iff)

lemma cell_loop_short:
  "n < k + length cols \<Longrightarrow> k \<le> n \<Longrightarrow>
   cell_loop j n k cols i =
     (map (\<lambda>(k', col). cell_event j k' col) (List.enumerate k (take (n - k) cols)),
      Inl IndexError)"
  using cell_loop_fst[of j n k cols i] cell_loop_snd[of j n k cols i]
  by (auto simp add: zip_upt_take prod_eq_iff)

lemma st_columns_pos: "st_columns spec = Inr n \<Longrightarrow> 0 < n"
  by (cases spec) (auto split: if_splits simp: list_ex_iff neq_Nil_conv)

subsection \<open>One row\<close>

lemma drawn_cells_all:
  "e \<in> set (drawn_cells j cols) \<Longrightarrow>
     is_cell e \<and> (in_row j' e = (j = j')) \<and> \<not> is_button e \<and> call_of e = None \<and> key_of e = None"
  by (auto simp: drawn_cells_def)

lemma drawn_cells_proj [simp]:
  "row_cells (drawn_cells j cols) j' = (if j' = j then drawn_cells j cols else [])"
  "row_buttons (drawn_cells j cols) j' = []"
  "edit_calls (drawn_cells j cols) = []"
  "keys_of (drawn_cells j cols) = []"
  using drawn_cells_all[of _ j cols j']
  by (auto simp: row_cells_def row_buttons_def edit_calls_def keys_of_def map_filter_def
      filter_empty_conv filter_id_conv)

lemma proj_append [simp]:
  "row_cells (xs @ ys) j = row_cells xs j @ row_cells ys j"
  "row_buttons (xs @ ys) j = row_buttons xs j @ row_buttons ys j"
  "edit_calls (xs @ ys) = edit_calls xs @ edit_calls ys"
  "keys_of (xs @ ys) = keys_of xs @ keys_of ys"
  by (simp_all add: row_cells_def row_buttons_def edit_calls_def keys_of_def map_filter_app)

lemma proj_Cons [simp]:
  "row_cells (e # xs) j = (if is_cell e \<and> in_row j e then e # row_cells xs j else row_cells xs j)"
  "row_buttons (e # xs) j = (if is_button e \<and> in_row j e then e # row_buttons xs j else row_buttons xs j)"
  "edit_calls (e # xs) = (case call_of e of None \<Rightarrow> edit_calls xs | Some x \<Rightarrow> x # edit_calls xs)"
  "keys_of (e # xs) = (case key_of e of None \<Rightarrow> keys_of xs | Some x \<Rightarrow> x # keys_of xs)"
  by (simp_all add: row_cells_def row_buttons_def edit_calls_def keys_of_def map_filter_simps
      split: option.splits)

lemma proj_Nil [simp]:
  "row_cells [] j = []" "row_buttons [] j = []" "edit_calls [] = []" "keys_of [] = []"
  by (simp_all add: row_cells_def row_buttons_def edit_calls_def keys_of_def map_filter_simps)

text \<open>render_row, by the outcome of its three steps\<close>

lemma render_row_rejected:
  "st_columns (column_request (column_formatting opts) row) = Inl e \<Longrightarrow>
   render_row h opts j row i = ([], Inl e)"
  by (simp add: render_row_def)

lemma render_row_short:
  assumes "st_columns (column_request (column_formatting opts) row) = Inr n"
    and "n < length (visible_cells (edit_function opts) row)"
  shows "render_row h opts j row i =
     (Columns j (column_request (column_formatting opts) row)
        # drawn_cells j (take n (visible_cells (edit_function opts) row)), Inl IndexError)"
  using assms cell_loop_short[of n 0 "visible_cells (edit_function opts) row" j i]
  by (simp add: render_row_def drawn_cells_def)

lemma render_row_fits:
  assumes "st_columns (column_request (column_formatting opts) row) = Inr n"
    and "length (visible_cells (edit_function opts) row) \<le> n"
  shows "render_row h opts j row i =
     (let vs = visible_cells (edit_function opts) row;
          i' = (if vs = [] then i else Some (length vs - 1))
      in if shows_edit opts j
         then (Columns j (column_request (column_formatting opts) row) # drawn_cells j vs
                 @ fst (edit_button h j n row i'), snd (edit_button h j n row i'))
         else (Columns j (column_request (column_formatting opts) row) # drawn_cells j vs, Inr i'))"
  using assms cell_loop_ok[of 0 "visible_cells (edit_function opts) row" n j i]
  by (simp add: render_row_def drawn_cells_def Let_def split: prod.splits)

lemma edit_button_cases:
  "edit_button h j n row i = (bevs, r) \<Longrightarrow>
     (bevs = [] \<and> (\<exists>e. r = Inl e))
   \<or> (\<exists>iv. i = Some iv \<and> iv + 1 < n \<and> \<not> button_clicked h (edit_key j)
          \<and> bevs = [Button j (iv + 1) (edit_key j)] \<and> r = Inr i)
   \<or> (\<exists>iv. i = Some iv \<and> iv + 1 < n \<and> button_clicked h (edit_key j) \<and> row = []
          \<and> bevs = [Button j (iv + 1) (edit_key j)] \<and> r = Inl IndexError)
   \<or> (\<exists>iv x xs. i = Some iv \<and> iv + 1 < n \<and> button_clicked h (edit_key j) \<and> row = x # xs
          \<and> bevs = [Button j (iv + 1) (edit_key j), EditCall x] \<and> r = Inr i)"
  by (auto simp: edit_button_def split: option.splits if_splits list.splits)

text \<open>what any run of a row draws\<close>

lemma render_row_shape:
  "\<exists>cs bs. fst (render_row h opts j row i) = cs @ bs
      \<and> (cs = [] \<or> (\<exists>m. cs = Columns j (column_request (column_formatting opts) row)
               # drawn_cells j (take m (visible_cells (edit_function opts) row))))
      \<and> (bs = [] \<or> (shows_edit opts j \<and> (\<exists>s. bs = [Button j s (edit_key j)]
            \<or> (button_clicked h (edit_key j) \<and> (\<exists>x xs. row = x # xs \<and> bs = [Button j s (edit_key j), EditCall x])))))"
proof (cases "st_columns (column_request (column_formatting opts) row)")
  case (Inl e)
  then show ?thesis by (simp add: render_row_rejected)
next
  case (Inr n)
  show ?thesis
  proof (cases "n < length (visible_cells (edit_function opts) row)")
    case True
    from render_row_short[OF Inr True] show ?thesis
      by (intro exI[of _ "fst (render_row h opts j row i)"] exI[of _ "[]"]) auto
  next
    case False
    then have le: "length (visible_cells (edit_function opts) row) \<le> n" by simp
    let ?vs = "visible_cells (edit_function opts) row"
    let ?i = "if ?vs = [] then i else Some (length ?vs - 1)"
    let ?cs = "Columns j (column_request (column_formatting opts) row) # drawn_cells j ?vs"
    have cs: "?cs = Columns j (column_request (column_formatting opts) row) # drawn_cells j (take (length ?vs) ?vs)"
      by simp
    show ?thesis
    proof (cases "shows_edit opts j")
      case True
      obtain bevs r where eb: "edit_button h j n row ?i = (bevs, r)" by (cases "edit_button h j n row ?i")
      from render_row_fits[OF Inr le] True eb
      have f: "fst (render_row h opts j row i) = ?cs @ bevs" by (simp add: Let_def)
      from edit_button_cases[OF eb] True
      have "bevs = [] \<or> (shows_edit opts j \<and> (\<exists>s. bevs = [Button j s (edit_key j)]
            \<or> (button_clicked h (edit_key j) \<and> (\<exists>x xs. row = x # xs \<and> bevs = [Button j s (edit_key j), EditCall x]))))"
        by auto
      with f cs show ?thesis by blast
    next
      case False
      from render_row_fits[OF Inr le] False
      have f: "fst (render_row h opts j row i) = ?cs @ []" by (simp add: Let_def)
      with cs show ?thesis by blast
    qed
  qed
qed

subsection \<open>The loop over the rows\<close>

lemma render_row_buttons_any:
  "row_buttons (fst (render_row h opts j row i)) j' \<noteq> [] \<Longrightarrow> j' = j \<and> shows_edit opts j"
  using render_row_shape[of h opts j row i] by (auto split: if_splits)

lemma render_row_cells_other:
  "j' \<noteq> j \<Longrightarrow> row_cells (fst (render_row h opts j row i)) j' = []"
  using render_row_shape[of h opts j row i] by (auto split: if_splits)

lemma render_row_keys:
  "keys_of (fst (render_row h opts j row i)) = [] \<or> keys_of (fst (render_row h opts j row i)) = [edit_key j]"
  using render_row_shape[of h opts j row i] by auto

lemma render_row_calls_any:
  "edit_calls (fst (render_row h opts j row i)) \<noteq> [] \<Longrightarrow> button_clicked h (edit_key j)"
  using render_row_shape[of h opts j row i] by auto

lemma render_row_ok:
  assumes "render_row h opts j row i = (evs, Inr i')"
  shows "row_cells evs j = drawn_cells j (visible_cells (edit_function opts) row)"
    and "shows_edit opts j \<Longrightarrow> \<exists>s. row_buttons evs j = [Button j s (edit_key j)]"
    and "shows_edit opts j \<Longrightarrow> button_clicked h (edit_key j) \<Longrightarrow>
           \<exists>x xs. row = x # xs \<and> edit_calls evs = [x]"
proof -
  let ?vs = "visible_cells (edit_function opts) row"
  obtain n where n: "st_columns (column_request (column_formatting opts) row) = Inr n"
    using assms by (cases "st_columns (column_request (column_formatting opts) row)")
      (simp_all add: render_row_rejected)
  have le: "length ?vs \<le> n"
  proof (rule ccontr)
    assume "\<not> length ?vs \<le> n"
    then have "n < length ?vs" by simp
    from render_row_short[OF n this, of h j i] assms show False by simp
  qed
  let ?i = "if ?vs = [] then i else Some (length ?vs - 1)"
  obtain bevs r where eb: "edit_button h j n row ?i = (bevs, r)" by (cases "edit_button h j n row ?i")
  note fits = render_row_fits[OF n le, of h j i]
  show "row_cells evs j = drawn_cells j ?vs"
    using fits assms edit_button_cases[OF eb] eb
    by (auto simp: Let_def split: if_splits)
  show "\<exists>s. row_buttons evs j = [Button j s (edit_key j)]" if "shows_edit opts j"
    using that fits assms edit_button_cases[OF eb] eb
    by (auto simp: Let_def split: if_splits)
  show "\<exists>x xs. row = x # xs \<and> edit_calls evs = [x]"
    if "shows_edit opts j" "button_clicked h (edit_key j)"
    using that fits assms edit_button_cases[OF eb] eb
    by (auto simp: Let_def split: if_splits)
qed

lemma rows_loop_Cons_ok:
  assumes "rows_loop h opts j (row # rows) i = (tr, None)"
  obtains evs i' tr' where "render_row h opts j row i = (evs, Inr i')"
    and "rows_loop h opts (Suc j) rows i' = (tr', None)"
    and "tr = Container (row_key j) # evs
           @ [Html (style_html j (row_style h j (header_color opts) (alternating_row_colors opts)))]
           @ tr'"
  using assms by (auto split: prod.splits sum.splits)

lemma rows_loop_Cons_fst:
  "\<exists>rest. fst (rows_loop h opts j (row # rows) i)
       = Container (row_key j) # fst (render_row h opts j row i) @ rest
     \<and> (rest = [] \<or> (\<exists>i'. rest =
           Html (style_html j (row_style h j (header_color opts) (alternating_row_colors opts)))
             # fst (rows_loop h opts (Suc j) rows i')))"
proof (cases "render_row h opts j row i")
  case (Pair evs r)
  show ?thesis
  proof (cases r)
    case (Inl e)
    with Pair show ?thesis by simp
  next
    case (Inr i')
    with Pair show ?thesis
      by (cases "rows_loop h opts (Suc j) rows i'") (auto intro: exI[of _ i'])
  qed
qed

text \<open>rows before the first one of the loop, and after its last, draw nothing\<close>

lemma rows_loop_buttons_any:
  "row_buttons (fst (rows_loop h opts j rows i)) j' \<noteq> [] \<Longrightarrow>
     j \<le> j' \<and> j' < j + length rows \<and> shows_edit opts j'"
proof (induction rows arbitrary: j i)
  case Nil
  then show ?case by simp
next
  case (Cons row rows)
  from rows_loop_Cons_fst[of h opts j row rows i] obtain rest where
    f: "fst (rows_loop h opts j (row # rows) i) = Container (row_key j) # fst (render_row h opts j row i) @ rest"
    and r: "rest = [] \<or> (\<exists>i'. rest =
           Html (style_html j (row_style h j (header_color opts) (alternating_row_colors opts)))
             # fst (rows_loop h opts (Suc j) rows i'))"
    by blast
  from Cons.prems f
  have "row_buttons (fst (render_row h opts j row i)) j' \<noteq> [] \<or> row_buttons rest j' \<noteq> []"
    by auto
  then show ?case
  proof
    assume "row_buttons (fst (render_row h opts j row i)) j' \<noteq> []"
    from render_row_buttons_any[OF this] show ?thesis by simp
  next
    assume a: "row_buttons rest j' \<noteq> []"
    with r obtain i' where "row_buttons (fst (rows_loop h opts (Suc j) rows i')) j' \<noteq> []"
      by auto
    from Cons.IH[OF this] show ?thesis by simp
  qed
qed

lemma rows_loop_buttons_ok:
  "rows_loop h opts j rows i = (tr, None) \<Longrightarrow> j \<le> j' \<Longrightarrow> j' < j + length rows \<Longrightarrow>
     shows_edit opts j' \<Longrightarrow> \<exists>s. row_buttons tr j' = [Button j' s (edit_key j')]"
proof (induction rows arbitrary: j i tr)
  case Nil
  then show ?case by simp
next
  case (Cons row rows)
  from Cons.prems(1) obtain evs i' tr' where
    rr: "render_row h opts j row i = (evs, Inr i')"
    and rl: "rows_loop h opts (Suc j) rows i' = (tr', None)"
    and tr: "tr = Container (row_key j) # evs
           @ [Html (style_html j (row_style h j (header_color opts) (alternating_row_colors opts)))]
           @ tr'"
    by (rule rows_loop_Cons_ok)
  show ?case
  proof (cases "j' = j")
    case True
    have "row_buttons tr' j = []"
      using rows_loop_buttons_any[of h opts "Suc j" rows i' j] rl by auto
    moreover from render_row_ok(2)[OF rr] Cons.prems(4) True
    obtain s where "row_buttons evs j = [Button j s (edit_key j)]" by auto
    ultimately show ?thesis using tr True by simp
  next
    case False
    with Cons.prems have "Suc j \<le> j'" "j' < Suc j + length rows" by simp_all
    from Cons.IH[OF rl this Cons.prems(4)] obtain s where "row_buttons tr' j' = [Button j' s (edit_key j')]"
      by blast
    moreover have "row_buttons evs j' = []"
      using render_row_buttons_any[of h opts j row i j'] rr False by auto
    ultimately show ?thesis using tr by simp
  qed
qed

lemma rows_loop_cells_before:
  "j' < j \<Longrightarrow> row_cells (fst (rows_loop h opts j rows i)) j' = []"
proof (induction rows arbitrary: j i)
  case Nil
  then show ?case by simp
next
  case (Cons row rows)
  from rows_loop_Cons_fst[of h opts j row rows i] obtain rest where
    f: "fst (rows_loop h opts j (row # rows) i) = Container (row_key j) # fst (render_row h opts j row i) @ rest"
    and r: "rest = [] \<or> (\<exists>i'. rest =
           Html (style_html j (row_style h j (header_color opts) (alternating_row_colors opts)))
             # fst (rows_loop h opts (Suc j) rows i'))"
    by blast
  from Cons.prems have "row_cells (fst (render_row h opts j row i)) j' = []"
    by (simp add: render_row_cells_other)
  moreover have "row_cells rest j' = []"
    using r Cons.IH[of "Suc j"] Cons.prems by auto
  ultimately show ?case using f by simp
qed

lemma rows_loop_cells_ok:
  "rows_loop h opts j rows i = (tr, None) \<Longrightarrow> r < length rows \<Longrightarrow>
     row_cells tr (j + r) = drawn_cells (j + r) (visible_cells (edit_function opts) (rows ! r))"
proof (induction rows arbitrary: j i tr r)
  case Nil
  then show ?case by simp
next
  case (Cons row rows)
  from Cons.prems(1) obtain evs i' tr' where
    rr: "render_row h opts j row i = (evs, Inr i')"
    and rl: "rows_loop h opts (Suc j) rows i' = (tr', None)"
    and tr: "tr = Container (row_key j) # evs
           @ [Html (style_html j (row_style h j (header_color opts) (alternating_row_colors opts)))]
           @ tr'"
    by (rule rows_loop_Cons_ok)
  show ?case
  proof (cases r)
    case 0
    have "row_cells tr' j = []"
      using rows_loop_cells_before[of j "Suc j" h opts rows i'] rl by simp
    with render_row_ok(1)[OF rr] tr 0 show ?thesis by simp
  next
    case (Suc r')
    with Cons.prems have "r' < length rows" by simp
    from Cons.IH[OF rl this] have "row_cells tr' (Suc j + r') =
       drawn_cells (Suc j + r') (visible_cells (edit_function opts) (rows ! r'))" .
    moreover have "row_cells evs (j + r) = []"
      using render_row_cells_other[of "j + r" j h opts row i] rr Suc by simp
    ultimately show ?thesis using tr Suc by simp
  qed
qed


lemma rows_loop_calls_before:
  assumes "button_clicked h = (\<lambda>key. key = edit_key r)" and "r < j"
  shows "edit_calls (fst (rows_loop h opts j rows i)) = []"
  using assms(2)
proof (induction rows arbitrary: j i)
  case Nil
  then show ?case by simp
next
  case (Cons row rows)
  from rows_loop_Cons_fst[of h opts j row rows i] obtain rest where
    f: "fst (rows_loop h opts j (row # rows) i) = Container (row_key j) # fst (render_row h opts j row i) @ rest"
    and r: "rest = [] \<or> (\<exists>i'. rest =
           Html (style_html j (row_style h j (header_color opts) (alternating_row_colors opts)))
             # fst (rows_loop h opts (Suc j) rows i'))"
    by blast
  have "edit_calls (fst (render_row h opts j row i)) = []"
    using render_row_calls_any[of h opts j row i] assms(1) Cons.prems by auto
  moreover have "edit_calls rest = []"
    using r Cons.IH[of "Suc j"] Cons.prems by auto
  ultimately show ?case using f by simp
qed

lemma rows_loop_calls_ok:
  assumes "button_clicked h = (\<lambda>key. key = edit_key r)"
  shows "rows_loop h opts j rows i = (tr, None) \<Longrightarrow> j \<le> r \<Longrightarrow> r < j + length rows \<Longrightarrow>
     shows_edit opts r \<Longrightarrow> \<exists>x xs. rows ! (r - j) = x # xs \<and> edit_calls tr = [x]"
proof (induction rows arbitrary: j i tr)
  case Nil
  then show ?case by simp
next
  case (Cons row rows)
  from Cons.prems(1) obtain evs i' tr' where
    rr: "render_row h opts j row i = (evs, Inr i')"
    and rl: "rows_loop h opts (Suc j) rows i' = (tr', None)"
    and tr: "tr = Container (row_key j) # evs
           @ [Html (style_html j (row_style h j (header_color opts) (alternating_row_colors opts)))]
           @ tr'"
    by (rule rows_loop_Cons_ok)
  show ?case
  proof (cases "r = j")
    case True
    have "edit_calls tr' = []"
      using rows_loop_calls_before[OF assms, of "Suc j" opts rows i'] rl True by simp
    moreover from render_row_ok(3)[OF rr] Cons.prems(4) True assms
    obtain x xs where "row = x # xs" "edit_calls evs = [x]" by auto
    ultimately show ?thesis using tr True by simp
  next
    case False
    with Cons.prems have b: "Suc j \<le> r" "r < Suc j + length rows" by simp_all
    from Cons.IH[OF rl b Cons.prems(4)] obtain x xs where
      x: "rows ! (r - Suc j) = x # xs" "edit_calls tr' = [x]" by blast
    have "edit_calls evs = []"
      using render_row_calls_any[of h opts j row i] rr assms False by auto
    moreover from b have "r - j = Suc (r - Suc j)" by simp
    then have "(row # rows) ! (r - j) = rows ! (r - Suc j)" by simp
    ultimately show ?thesis using tr x by simp
  qed
qed

lemma rows_loop_keys:
  "distinct (keys_of (fst (rows_loop h opts j rows i)))
   \<and> set (keys_of (fst (rows_loop h opts j rows i)))
       \<subseteq> row_key ` {j..<j + length rows} \<union> edit_key ` {j..<j + length rows}"
proof (induction rows arbitrary: j i)
  case Nil
  then show ?case by simp
next
  case (Cons row rows)
  from rows_loop_Cons_fst[of h opts j row rows i] obtain rest where
    f: "fst (rows_loop h opts j (row # rows) i) = Container (row_key j) # fst (render_row h opts j row i) @ rest"
    and r: "rest = [] \<or> (\<exists>i'. rest =
           Html (style_html j (row_style h j (header_color opts) (alternating_row_colors opts)))
             # fst (rows_loop h opts (Suc j) rows i'))"
    by blast
  have rest: "distinct (keys_of rest)
     \<and> set (keys_of rest) \<subseteq> row_key ` {Suc j..<Suc j + length rows} \<union> edit_key ` {Suc j..<Suc j + length rows}"
  proof (cases "rest = []")
    case True
    then show ?thesis by simp
  next
    case False
    with r obtain i' where "rest =
           Html (style_html j (row_style h j (header_color opts) (alternating_row_colors opts)))
             # fst (rows_loop h opts (Suc j) rows i')" by blast
    then have "keys_of rest = keys_of (fst (rows_loop h opts (Suc j) rows i'))" by simp
    with Cons.IH[of "Suc j" i'] show ?thesis by simp
  qed
  then have notin: "row_key j \<notin> set (keys_of rest)" "edit_key j \<notin> set (keys_of rest)"
    by auto
  have sub: "row_key ` {Suc j..<Suc j + length rows} \<union> edit_key ` {Suc j..<Suc j + length rows}
      \<subseteq> row_key ` {j..<j + length (row # rows)} \<union> edit_key ` {j..<j + length (row # rows)}"
    by auto
  have here: "row_key j \<in> row_key ` {j..<j + length (row # rows)}"
    "edit_key j \<in> edit_key ` {j..<j + length (row # rows)}"
    by simp_all
  from render_row_keys[of h opts j row i] show ?case
  proof
    assume "keys_of (fst (render_row h opts j row i)) = []"
    with f rest notin sub here show ?thesis by auto
  next
    assume "keys_of (fst (render_row h opts j row i)) = [edit_key j]"
    with f rest notin sub here show ?thesis by auto
  qed
qed

lemma rows_loop_style_ok:
  "rows_loop h opts j rows i = (tr, None) \<Longrightarrow> j \<le> j' \<Longrightarrow> j' < j + length rows \<Longrightarrow>
     Html (style_html j' (row_style h j' (header_color opts) (alternating_row_colors opts))) \<in> set tr"
proof (induction rows arbitrary: j i tr)
  case Nil
  then show ?case by simp
next
  case (Cons row rows)
  from Cons.prems(1) obtain evs i' tr' where
    rl: "rows_loop h opts (Suc j) rows i' = (tr', None)"
    and tr: "tr = Container (row_key j) # evs
           @ [Html (style_html j (row_style h j (header_color opts) (alternating_row_colors opts)))]
           @ tr'"
    by (rule rows_loop_Cons_ok)
  show ?case
  proof (cases "j' = j")
    case True
    with tr show ?thesis by simp
  next
    case False
    with Cons.prems have "Suc j \<le> j'" "j' < Suc j + length rows" by simp_all
    from Cons.IH[OF rl this] tr show ?thesis by simp
  qed
qed

text \<open>from the loop to the whole call\<close>

lemma display_table_fst:
  "fst (display_table h table_data opts) =
     Html ''<style> .st-key-rnd_table { display: block;} </style>''
       # Container table_key # fst (rows_loop h opts 0 table_data None)"
  by (simp add: display_table_def split: prod.splits)

lemma display_table_snd:
  "snd (display_table h table_data opts) = snd (rows_loop h opts 0 table_data None)"
  by (simp add: display_table_def split: prod.splits)

lemma display_table_ok:
  assumes "display_table h table_data opts = (tr, None)"
  obtains tr' where "rows_loop h opts 0 table_data None = (tr', None)"
    and "tr = Html ''<style> .st-key-rnd_table { display: block;} </style>''
       # Container table_key # tr'"
  using assms by (auto simp: display_table_def split: prod.splits)


text \<open>tables that need no more slots than the default layout gives\<close>

lemma render_row_completes:
  assumes "\<not> truthy_spec (column_formatting opts)"
    and "(if edit_function opts then 2 else 1) \<le> length row"
  shows "\<exists>evs i'. render_row h opts j row i = (evs, Inr i')"
proof -
  let ?vs = "visible_cells (edit_function opts) row"
  from assms(1) have "column_request (column_formatting opts) row = ColCount (int (length row))"
    by (cases "column_formatting opts") (auto simp: column_request_def)
  with assms(2) have n: "st_columns (column_request (column_formatting opts) row) = Inr (length row)"
    by (auto split: if_splits)
  have le: "length ?vs \<le> length row" by (simp add: visible_cells_def)
  note fits = render_row_fits[OF n le, of h j i]
  show ?thesis
  proof (cases "shows_edit opts j")
    case False
    with fits show ?thesis by (simp add: Let_def)
  next
    case True
    then have ef: "edit_function opts" by (simp add: shows_edit_def)
    with assms(2) have len: "length ?vs = length row - 1" and two: "2 \<le> length row"
      by (simp_all add: visible_cells_def)
    then have ne: "?vs \<noteq> []" by auto
    from two obtain x xs where row: "row = x # xs" by (cases row) auto
    from len two have slot: "(length ?vs - 1) + 1 < length row" by simp
    have "\<exists>bevs. edit_button h j (length row) row (Some (length ?vs - 1))
             = (bevs, Inr (Some (length ?vs - 1)))"
      using slot row by (cases "button_clicked h (edit_key j)") (auto simp: edit_button_def)
    then obtain bevs where "edit_button h j (length row) row (Some (length ?vs - 1))
             = (bevs, Inr (Some (length ?vs - 1)))" ..
    with fits True ne show ?thesis by (simp add: Let_def)
  qed
qed

lemma rows_loop_completes:
  assumes "\<not> truthy_spec (column_formatting opts)"
  shows "(\<And>row. row \<in> set rows \<Longrightarrow> (if edit_function opts then 2 else 1) \<le> length row)
     \<Longrightarrow> snd (rows_loop h opts j rows i) = None"
proof (induction rows arbitrary: j i)
  case Nil
  then show ?case by simp
next
  case (Cons row rows)
  from Cons.prems have "(if edit_function opts then 2 else 1) \<le> length row" by simp
  from render_row_completes[OF assms this, of h j i]
  obtain evs i' where rr: "render_row h opts j row i = (evs, Inr i')" by blast
  from Cons.prems have "snd (rows_loop h opts (Suc j) rows i') = None"
    by (intro Cons.IH) simp
  with rr show ?case
    by (cases "rows_loop h opts (Suc j) rows i'") simp
qed

lemma display_table_completes:
  assumes "\<not> truthy_spec (column_formatting opts)"
    and "\<And>row. row \<in> set table_data \<Longrightarrow> (if edit_function opts then 2 else 1) \<le> length row"
  shows "snd (display_table h table_data opts) = None"
  using rows_loop_completes[OF assms(1), of table_data h 0 None] assms(2)
  by (simp add: display_table_snd)


section \<open>The claims\<close>

subsection \<open>Row backgrounds\<close>

text \<open>
  C5. With \<^verbatim>\<open>alternating_row_colors\<close> true, a row that is not row 0 under a header colour
  gets the theme's secondary background colour when its index is even (its 1-based
  position odd), and \<^verbatim>\<open>transparent\<close> when its index is odd: that is the style lines 64
  to 70 compute, and the style sheet a run that ends without an exception injects for
  the row.
\<close>

theorem alternating_rows_by_parity:
  assumes "alternating_row_colors opts"
    and "\<not> (j = 0 \<and> truthy_str (header_color opts))"
  shows "row_style h j (header_color opts) (alternating_row_colors opts)
           = (if even j then secondaryBackgroundColor h else ''transparent'')
         \<and> (display_table h table_data opts = (tr, None) \<and> j < length table_data \<longrightarrow>
              Html (style_html j (if even j then secondaryBackgroundColor h else ''transparent''))
                \<in> set tr)"
proof -
  from assms have s: "row_style h j (header_color opts) (alternating_row_colors opts)
           = (if even j then secondaryBackgroundColor h else ''transparent'')"
    by (cases "header_color opts") (auto simp: alternating_style_def)
  have "Html (style_html j (if even j then secondaryBackgroundColor h else ''transparent''))
          \<in> set tr"
    if r: "display_table h table_data opts = (tr, None)" and j: "j < length table_data"
  proof -
    from r obtain tr' where rl: "rows_loop h opts 0 table_data None = (tr', None)"
      and tr: "tr = Html ''<style> .st-key-rnd_table { display: block;} </style>''
         # Container table_key # tr'"
      by (rule display_table_ok)
    from rows_loop_style_ok[OF rl, of j] j s tr show ?thesis by simp
  qed
  with s show ?thesis by blast
qed

theorem alternating_rows_by_parity_witness:
  "row_style (idle_host ''#f0f2f6'') 2 None True = ''#f0f2f6''
   \<and> row_style (idle_host ''#f0f2f6'') 1 None True = ''transparent''
   \<and> Html ''<style> .st-key-row_2 { background-color: #f0f2f6;} </style>''
        \<in> set (fst (display_table (idle_host ''#f0f2f6'') [[''a''], [''b''], [''c'']]
              (default_options\<lparr>alternating_row_colors := True\<rparr>)))"
proof -
  let ?h = "idle_host ''#f0f2f6''"
  let ?o = "default_options\<lparr>alternating_row_colors := True\<rparr>"
  let ?t = "[[''a''], [''b''], [''c'']]"
  have o: "alternating_row_colors ?o" "header_color ?o = None" "secondaryBackgroundColor ?h = ''#f0f2f6''"
    by (simp_all add: default_options_def idle_host_def)
  have ok: "display_table ?h ?t ?o = (fst (display_table ?h ?t ?o), None)" by code_simp
  have st: "style_html 2 ''#f0f2f6'' = ''<style> .st-key-row_2 { background-color: #f0f2f6;} </style>''"
    by code_simp
  from alternating_rows_by_parity[of ?o 2 ?h ?t "fst (display_table ?h ?t ?o)"]
    alternating_rows_by_parity[of ?o 1 ?h ?t "fst (display_table ?h ?t ?o)"] o ok st
  show ?thesis by simp
qed

text \<open>
  C6. A header colour that is set (a non-empty string, which is what \<^verbatim>\<open>if header_color\<close>
  tests) is the background of row 0, whatever \<^verbatim>\<open>alternating_row_colors\<close> and
  \<^verbatim>\<open>has_header\<close> are (the style does not read \<^verbatim>\<open>has_header\<close> at all), and it is the colour
  of the style sheet a run that ends without an exception injects for row 0; the
  background of every other row is what it is without a header colour.
\<close>

theorem header_color_on_row_0_only:
  assumes "c \<noteq> []"
  shows "row_style h 0 (Some c) alt = c
         \<and> row_style h (Suc j) (Some c) alt = row_style h (Suc j) None alt
         \<and> (header_color opts = Some c \<and> display_table h (row # rows) opts = (tr, None) \<longrightarrow>
              Html (style_html 0 c) \<in> set tr)"
proof -
  have "Html (style_html 0 c) \<in> set tr"
    if hc: "header_color opts = Some c" and r: "display_table h (row # rows) opts = (tr, None)"
  proof -
    from r obtain tr' where rl: "rows_loop h opts 0 (row # rows) None = (tr', None)"
      and tr: "tr = Html ''<style> .st-key-rnd_table { display: block;} </style>''
         # Container table_key # tr'"
      by (rule display_table_ok)
    from rows_loop_style_ok[OF rl, of 0] hc assms tr show ?thesis by simp
  qed
  with assms show ?thesis by simp
qed

theorem header_color_on_row_0_only_witness:
  "row_style (idle_host ''#f0f2f6'') 0 (Some ''red'') True = ''red''
   \<and> row_style (idle_host ''#f0f2f6'') 0 (Some ''red'') False = ''red''
   \<and> row_style (idle_host ''#f0f2f6'') (Suc 1) (Some ''red'') True = ''#f0f2f6''
   \<and> Html ''<style> .st-key-row_0 { background-color: red;} </style>''
        \<in> set (fst (display_table (idle_host ''#f0f2f6'') ([''H1'', ''H2''] # [[''a'', ''b'']])
              (default_options\<lparr>header_color := Some ''red'', alternating_row_colors := True\<rparr>)))"
proof -
  let ?h = "idle_host ''#f0f2f6''"
  let ?o = "default_options\<lparr>header_color := Some ''red'', alternating_row_colors := True\<rparr>"
  have hc: "header_color ?o = Some ''red''" by (simp add: default_options_def)
  have ok: "display_table ?h ([''H1'', ''H2''] # [[''a'', ''b'']]) ?o
      = (fst (display_table ?h ([''H1'', ''H2''] # [[''a'', ''b'']]) ?o), None)" by code_simp
  have st: "style_html 0 ''red'' = ''<style> .st-key-row_0 { background-color: red;} </style>''"
    by code_simp
  have ne: "''red'' \<noteq> []" by simp
  from header_color_on_row_0_only[OF ne, of ?h True 1 ?o "[''H1'', ''H2'']" "[[''a'', ''b'']]"
      "fst (display_table ?h ([''H1'', ''H2''] # [[''a'', ''b'']]) ?o)"]
    header_color_on_row_0_only[OF ne, of ?h False 1 ?o "[''H1'', ''H2'']" "[[''a'', ''b'']]"
      "fst (display_table ?h ([''H1'', ''H2''] # [[''a'', ''b'']]) ?o)"] hc ok st
  show ?thesis by (simp add: idle_host_def alternating_style_def)
qed

subsection \<open>Column slots\<close>

text \<open>
  C1, as the code has it. Without a column layout (\<^verbatim>\<open>None\<close>, or a layout that is falsy:
  0 or an empty list) the row gets as many slots as it has cells, the identifier
  included: \<^verbatim>\<open>len(row)\<close>, not the number of visible cells. With an edit function that is
  one slot more than the visible cells of a non-empty row, the slot the Edit button
  goes to.
\<close>

theorem default_slots_are_row_length:
  assumes "\<not> truthy_spec cf"
  shows "column_request cf row = ColCount (int (length row))
         \<and> st_columns (column_request cf (x # xs)) = Inr (length (x # xs))
         \<and> length (x # xs) = length (visible_cells False (x # xs))
         \<and> length (x # xs) = length (visible_cells True (x # xs)) + 1"
  using assms
  by (cases cf) (auto simp: column_request_def visible_cells_def)

theorem default_slots_are_row_length_witness:
  "st_columns (column_request None [''1'', ''Alice'', ''30'']) = Inr 3
   \<and> length (visible_cells True [''1'', ''Alice'', ''30'']) = 2"
  using default_slots_are_row_length[of None "[]" "''1''" "[''Alice'', ''30'']"]
  by simp

text \<open>
  The claim as stated fails: with an edit function, the row \<^verbatim>\<open>["1", "Alice", "30"]\<close> has
  two visible cells and gets three slots.
\<close>

theorem default_slots_counterexample:
  "st_columns (column_request None [''1'', ''Alice'', ''30''])
     \<noteq> Inr (length (visible_cells True [''1'', ''Alice'', ''30'']))"
  by (simp add: column_request_def visible_cells_def)

subsection \<open>The scenario of two data rows\<close>

text \<open>
  C9. The rows \<^verbatim>\<open>[["1","Alice","30"],["2","Bob","25"]]\<close> with \<^verbatim>\<open>has_header=False\<close>, an edit
  function and no column layout: the run ends without an exception and draws two rows,
  each with its two visible cells in slots 0 and 1 and an Edit button in slot 2; a
  click on the button of row 0 calls the edit function once, with \<^verbatim>\<open>"1"\<close>, and a click
  on the button of row 1 calls it once, with \<^verbatim>\<open>"2"\<close>. (Row 0 is drawn through
  \<^verbatim>\<open>markdown\<close> with the emphasis marks, as every row 0 is.)
\<close>

theorem alice_bob_scenario:
  "display_table (idle_host ''#f0f2f6'')
       [[''1'', ''Alice'', ''30''], [''2'', ''Bob'', ''25'']]
       (default_options\<lparr>edit_function := True, has_header := False\<rparr>)
     = ([Html ''<style> .st-key-rnd_table { display: block;} </style>'',
         Container ''rnd_table'',
         Container ''row_0'', Columns 0 (ColCount 3),
         Markdown 0 0 ''***Alice***'', Markdown 0 1 ''***30***'', Button 0 2 ''edit_0'',
         Html ''<style> .st-key-row_0 { background-color: transparent;} </style>'',
         Container ''row_1'', Columns 1 (ColCount 3),
         Write 1 0 ''Bob'', Write 1 1 ''25'', Button 1 2 ''edit_1'',
         Html ''<style> .st-key-row_1 { background-color: transparent;} </style>''],
        None)
   \<and> edit_calls (fst (display_table (clicked_host ''#f0f2f6'' ''edit_0'')
       [[''1'', ''Alice'', ''30''], [''2'', ''Bob'', ''25'']]
       (default_options\<lparr>edit_function := True, has_header := False\<rparr>))) = [''1'']
   \<and> snd (display_table (clicked_host ''#f0f2f6'' ''edit_0'')
       [[''1'', ''Alice'', ''30''], [''2'', ''Bob'', ''25'']]
       (default_options\<lparr>edit_function := True, has_header := False\<rparr>)) = None
   \<and> edit_calls (fst (display_table (clicked_host ''#f0f2f6'' ''edit_1'')
       [[''1'', ''Alice'', ''30''], [''2'', ''Bob'', ''25'']]
       (default_options\<lparr>edit_function := True, has_header := False\<rparr>))) = [''2'']
   \<and> snd (display_table (clicked_host ''#f0f2f6'' ''edit_1'')
       [[''1'', ''Alice'', ''30''], [''2'', ''Bob'', ''25'']]
       (default_options\<lparr>edit_function := True, has_header := False\<rparr>)) = None"
  by code_simp

theorem alice_bob_scenario_witness:
  "edit_calls (fst (display_table (clicked_host ''#f0f2f6'' ''edit_1'')
       [[''1'', ''Alice'', ''30''], [''2'', ''Bob'', ''25'']]
       (default_options\<lparr>edit_function := True, has_header := False\<rparr>))) = [''2'']"
  using alice_bob_scenario by simp

subsection \<open>Emphasis of row 0\<close>

text \<open>
  C2. The docstring promises bold formatting of the first row when \<^verbatim>\<open>has_header\<close> is
  true, and line 80 reads \<^verbatim>\<open>has_header\<close> for the Edit button; line 75 does not: it tests
  \<^verbatim>\<open>j == 0\<close> alone. So with \<^verbatim>\<open>has_header=False\<close> the cells of row 0 still go through
  \<^verbatim>\<open>markdown\<close> with the emphasis marks, and only the rows after it through \<^verbatim>\<open>write\<close>.
\<close>

theorem row_0_emphasized_without_header:
  "display_table (idle_host ''#f0f2f6'') [[''a'', ''b''], [''c'', ''d'']]
       (default_options\<lparr>has_header := False\<rparr>)
     = ([Html ''<style> .st-key-rnd_table { display: block;} </style>'',
         Container ''rnd_table'',
         Container ''row_0'', Columns 0 (ColCount 2),
         Markdown 0 0 ''***a***'', Markdown 0 1 ''***b***'',
         Html ''<style> .st-key-row_0 { background-color: transparent;} </style>'',
         Container ''row_1'', Columns 1 (ColCount 2),
         Write 1 0 ''c'', Write 1 1 ''d'',
         Html ''<style> .st-key-row_1 { background-color: transparent;} </style>''],
        None)"
  by code_simp

theorem row_0_emphasized_without_header_witness:
  "fst (display_table (idle_host ''#f0f2f6'') [[''a'', ''b''], [''c'', ''d'']]
       (default_options\<lparr>has_header := False\<rparr>)) ! 4 = Markdown 0 0 ''***a***''"
  using row_0_emphasized_without_header by simp

subsection \<open>The Edit button\<close>

text \<open>
  What the code does about the Edit button in general. No run draws one on a row unless
  an edit function is set and the row is not row 0 under \<^verbatim>\<open>has_header\<close>; a run that ends
  without an exception has drawn exactly one, keyed \<^verbatim>\<open>edit_j\<close>, on every such row \<open>j\<close>.
\<close>

lemma edit_button_rows:
  "(row_buttons (fst (display_table h table_data opts)) j \<noteq> [] \<longrightarrow>
      j < length table_data \<and> edit_function opts \<and> (j \<noteq> 0 \<or> \<not> has_header opts))
   \<and> (snd (display_table h table_data opts) = None \<and> j < length table_data
        \<and> edit_function opts \<and> (j \<noteq> 0 \<or> \<not> has_header opts) \<longrightarrow>
      (\<exists>s. row_buttons (fst (display_table h table_data opts)) j = [Button j s (edit_key j)]))"
proof (rule conjI; rule impI)
  assume "row_buttons (fst (display_table h table_data opts)) j \<noteq> []"
  then have "row_buttons (fst (rows_loop h opts 0 table_data None)) j \<noteq> []"
    by (simp add: display_table_fst)
  from rows_loop_buttons_any[OF this]
  show "j < length table_data \<and> edit_function opts \<and> (j \<noteq> 0 \<or> \<not> has_header opts)"
    by (simp add: shows_edit_def)
next
  assume a: "snd (display_table h table_data opts) = None \<and> j < length table_data
        \<and> edit_function opts \<and> (j \<noteq> 0 \<or> \<not> has_header opts)"
  then have "display_table h table_data opts = (fst (display_table h table_data opts), None)"
    by (simp add: prod_eq_iff)
  then obtain tr' where rl: "rows_loop h opts 0 table_data None = (tr', None)"
    and tr: "fst (display_table h table_data opts) =
       Html ''<style> .st-key-rnd_table { display: block;} </style>'' # Container table_key # tr'"
    by (rule display_table_ok)
  from a have "shows_edit opts j" by (simp add: shows_edit_def)
  from rows_loop_buttons_ok[OF rl _ _ this] a tr
  show "\<exists>s. row_buttons (fst (display_table h table_data opts)) j = [Button j s (edit_key j)]"
    by simp
qed

text \<open>
  With no column layout and at least two cells in every row (an identifier and a
  visible cell; one cell when there is no edit function), every run ends without an
  exception, and a row has an Edit button exactly when the condition of line 80 holds.
\<close>

lemma edit_button_iff_line_80:
  assumes "\<not> truthy_spec (column_formatting opts)"
    and "\<And>row. row \<in> set table_data \<Longrightarrow> (if edit_function opts then 2 else 1) \<le> length row"
    and "j < length table_data"
  shows "(row_buttons (fst (display_table h table_data opts)) j \<noteq> [])
           = (edit_function opts \<and> (j \<noteq> 0 \<or> \<not> has_header opts))"
  using edit_button_rows[of h table_data opts j] display_table_completes[OF assms(1,2), where h = h] assms(3)
  by auto

text \<open>
  C3. The claim is what line 80 means to do, and the code misses it for a row that holds
  its identifier and nothing else. The table \<^verbatim>\<open>[["1"], ["2"]]\<close> with an edit function and
  \<^verbatim>\<open>has_header=False\<close>: both rows are due an Edit button, and one slot each is all they
  need and what they get. Row 0 draws no cell, so line 81 reads \<^verbatim>\<open>i\<close> before anything
  bound it; the run ends with UnboundLocalError and neither row has a button.
\<close>

theorem edit_button_missing_on_identifier_rows:
  "display_table (idle_host ''#f0f2f6'') [[''1''], [''2'']]
       (default_options\<lparr>edit_function := True, has_header := False\<rparr>)
     = ([Html ''<style> .st-key-rnd_table { display: block;} </style>'',
         Container ''rnd_table'', Container ''row_0'', Columns 0 (ColCount 1)],
        Some UnboundLocalError)
   \<and> shows_edit (default_options\<lparr>edit_function := True, has_header := False\<rparr>) 0
   \<and> shows_edit (default_options\<lparr>edit_function := True, has_header := False\<rparr>) 1
   \<and> row_buttons (fst (display_table (idle_host ''#f0f2f6'') [[''1''], [''2'']]
         (default_options\<lparr>edit_function := True, has_header := False\<rparr>))) 0 = []
   \<and> row_buttons (fst (display_table (idle_host ''#f0f2f6'') [[''1''], [''2'']]
         (default_options\<lparr>edit_function := True, has_header := False\<rparr>))) 1 = []"
  by code_simp

theorem edit_button_missing_on_identifier_rows_witness:
  "snd (display_table (idle_host ''#f0f2f6'') [[''1''], [''2'']]
       (default_options\<lparr>edit_function := True, has_header := False\<rparr>))
     = Some UnboundLocalError"
  using edit_button_missing_on_identifier_rows by simp

subsection \<open>The hidden identifier\<close>

text \<open>
  What the code does about the identifier in general. In a run with an edit function
  that ends without an exception, the cells drawn in row \<open>j\<close> are the cells of that row
  after the first, in order, cell \<open>k + 1\<close> in slot \<open>k\<close> (through \<^verbatim>\<open>markdown\<close> with emphasis
  marks in row 0, through \<^verbatim>\<open>write\<close> elsewhere); and when row \<open>j\<close> has an Edit button and
  the host reports a click on it (and on no other), the edit function is called exactly
  once, with the first cell of row \<open>j\<close>.
\<close>

lemma edit_hides_and_passes_identifier:
  assumes "display_table h table_data opts = (tr, None)"
    and "edit_function opts"
    and "j < length table_data"
  shows "row_cells tr j = drawn_cells j (drop 1 (table_data ! j))
         \<and> (row_buttons tr j \<noteq> [] \<and> button_clicked h = (\<lambda>key. key = edit_key j) \<longrightarrow>
              (\<exists>x xs. table_data ! j = x # xs \<and> edit_calls tr = [x]))"
proof -
  from assms(1) obtain tr' where rl: "rows_loop h opts 0 table_data None = (tr', None)"
    and tr: "tr = Html ''<style> .st-key-rnd_table { display: block;} </style>''
       # Container table_key # tr'"
    by (rule display_table_ok)
  from rows_loop_cells_ok[OF rl assms(3)] assms(2) tr
  have cells: "row_cells tr j = drawn_cells j (drop 1 (table_data ! j))"
    by (simp add: visible_cells_def)
  have calls: "\<exists>x xs. table_data ! j = x # xs \<and> edit_calls tr = [x]"
    if b: "row_buttons tr j \<noteq> []" and c: "button_clicked h = (\<lambda>key. key = edit_key j)"
  proof -
    from b tr have "row_buttons (fst (rows_loop h opts 0 table_data None)) j \<noteq> []"
      using rl by simp
    from rows_loop_buttons_any[OF this] have se: "shows_edit opts j" by simp
    from rows_loop_calls_ok[OF c rl _ _ se] assms(3) tr show ?thesis by simp
  qed
  from cells calls show ?thesis by blast
qed

text \<open>
  With no column layout and at least two cells in every row, that is every run: no
  hypothesis about how the run ends is needed.
\<close>

lemma edit_hides_identifier_default_layout:
  assumes "\<not> truthy_spec (column_formatting opts)"
    and "edit_function opts"
    and "\<And>row. row \<in> set table_data \<Longrightarrow> 2 \<le> length row"
    and "j < length table_data"
  shows "row_cells (fst (display_table h table_data opts)) j
           = drawn_cells j (drop 1 (table_data ! j))
         \<and> (row_buttons (fst (display_table h table_data opts)) j \<noteq> []
              \<and> button_clicked h = (\<lambda>key. key = edit_key j) \<longrightarrow>
              (\<exists>x xs. table_data ! j = x # xs
                  \<and> edit_calls (fst (display_table h table_data opts)) = [x]))"
proof -
  from assms(2,3) have "\<And>row. row \<in> set table_data \<Longrightarrow>
      (if edit_function opts then 2 else 1) \<le> length row" by simp
  from display_table_completes[OF assms(1) this, where h = h]
  have "display_table h table_data opts = (fst (display_table h table_data opts), None)"
    by (simp add: prod_eq_iff)
  from edit_hides_and_passes_identifier[OF this assms(2,4)] show ?thesis .
qed



subsection \<open>Too few slots\<close>

text \<open>
  C7, as the code has it. Nothing is validated. When \<^verbatim>\<open>st.columns\<close> returns fewer slots
  than the row has visible cells, plus one where the row is due an Edit button, the run
  draws the row's cells into the slots there are, in order, and ends at the first index
  past the last slot with Python's IndexError, which names neither the row nor the two
  counts.
\<close>

theorem too_few_slots_raise_IndexError:
  assumes "st_columns (column_request (column_formatting opts) row) = Inr n"
    and "n < length (visible_cells (edit_function opts) row) + (if shows_edit opts j then 1 else 0)"
  shows "rows_loop h opts j (row # rows) i =
     (Container (row_key j) # Columns j (column_request (column_formatting opts) row)
        # drawn_cells j (take n (visible_cells (edit_function opts) row)), Some IndexError)"
proof -
  let ?vs = "visible_cells (edit_function opts) row"
  have "render_row h opts j row i =
     (Columns j (column_request (column_formatting opts) row) # drawn_cells j (take n ?vs),
      Inl IndexError)"
  proof (cases "n < length ?vs")
    case True
    from render_row_short[OF assms(1) True] show ?thesis .
  next
    case False
    with assms(2) have eq: "length ?vs = n" and se: "shows_edit opts j"
      by (simp_all split: if_splits)
    from st_columns_pos[OF assms(1)] eq have ne: "?vs \<noteq> []" by auto
    from eq have le: "length ?vs \<le> n" by simp
    from st_columns_pos[OF assms(1)] have "\<not> (n - 1) + 1 < n" by simp
    with eq have "edit_button h j n row (Some (length ?vs - 1)) = ([], Inl IndexError)"
      by (simp add: edit_button_def)
    with render_row_fits[OF assms(1) le, of h j i] se ne eq show ?thesis
      by (simp add: Let_def)
  qed
  then show ?thesis by simp
qed

theorem too_few_slots_raise_IndexError_witness:
  "rows_loop (idle_host ''#f0f2f6'') (default_options\<lparr>column_formatting := Some (ColCount 2)\<rparr>)
       1 ([''a'', ''b'', ''c''] # []) (Some 2)
     = ([Container ''row_1'', Columns 1 (ColCount 2), Write 1 0 ''a'', Write 1 1 ''b''],
        Some IndexError)"
proof -
  let ?o = "default_options\<lparr>column_formatting := Some (ColCount 2)\<rparr>"
  have a: "st_columns (column_request (column_formatting ?o) [''a'', ''b'', ''c'']) = Inr 2"
    by code_simp
  have b: "2 < length (visible_cells (edit_function ?o) [''a'', ''b'', ''c''])
             + (if shows_edit ?o 1 then 1 else 0)"
    by code_simp
  have c: "Container (row_key 1) # Columns 1 (column_request (column_formatting ?o) [''a'', ''b'', ''c''])
        # drawn_cells 1 (take 2 (visible_cells (edit_function ?o) [''a'', ''b'', ''c'']))
      = [Container ''row_1'', Columns 1 (ColCount 2), Write 1 0 ''a'', Write 1 1 ''b'']"
    by code_simp
  from too_few_slots_raise_IndexError[OF a b, of "idle_host ''#f0f2f6''" "[]" "Some 2"] c
  show ?thesis by simp
qed

text \<open>
  The claim as stated fails: with a layout of two columns and the row
  \<^verbatim>\<open>["a", "b", "c"]\<close>, the run places two cells before it ends, and what ends it is the
  bare IndexError of \<^verbatim>\<open>columns[2]\<close>, not a configuration error raised beforehand.
\<close>

theorem too_few_slots_counterexample:
  "display_table (idle_host ''#f0f2f6'') [[''a'', ''b'', ''c'']]
       (default_options\<lparr>column_formatting := Some (ColCount 2)\<rparr>)
     = ([Html ''<style> .st-key-rnd_table { display: block;} </style>'',
         Container ''rnd_table'',
         Container ''row_0'', Columns 0 (ColCount 2),
         Markdown 0 0 ''***a***'', Markdown 0 1 ''***b***''],
        Some IndexError)"
  by code_simp

subsection \<open>Identity keys\<close>

text \<open>
  C8, as the code has it. Within one call the keys handed to the host are pairwise
  distinct. They are the fixed key \<^verbatim>\<open>rnd_table\<close> and, for the rows drawn, \<^verbatim>\<open>row_j\<close> and
  \<^verbatim>\<open>edit_j\<close>: the row index is all they are made of, so nothing tells one table from
  another.
\<close>

theorem keys_distinct_within_one_call:
  "distinct (keys_of (fst (display_table h table_data opts)))
   \<and> set (keys_of (fst (display_table h table_data opts)))
       \<subseteq> insert table_key
            (row_key ` {0..<length table_data} \<union> edit_key ` {0..<length table_data})"
proof -
  have k: "keys_of (fst (display_table h table_data opts))
             = table_key # keys_of (fst (rows_loop h opts 0 table_data None))"
    by (simp add: display_table_fst)
  from rows_loop_keys[of h opts 0 table_data None]
  have d: "distinct (keys_of (fst (rows_loop h opts 0 table_data None)))"
    and s: "set (keys_of (fst (rows_loop h opts 0 table_data None)))
       \<subseteq> row_key ` {0..<length table_data} \<union> edit_key ` {0..<length table_data}"
    by simp_all
  from s have "table_key \<notin> set (keys_of (fst (rows_loop h opts 0 table_data None)))"
    by auto
  with k d s show ?thesis by auto
qed

theorem keys_distinct_within_one_call_witness:
  "distinct (keys_of (fst (display_table (idle_host ''#f0f2f6'')
       [[''ID'', ''Name''], [''1'', ''Alice''], [''2'', ''Bob'']]
       (default_options\<lparr>edit_function := True\<rparr>))))
   \<and> keys_of (fst (display_table (idle_host ''#f0f2f6'')
       [[''ID'', ''Name''], [''1'', ''Alice''], [''2'', ''Bob'']]
       (default_options\<lparr>edit_function := True\<rparr>)))
     = [''rnd_table'', ''row_0'', ''row_1'', ''edit_1'', ''row_2'', ''edit_2'']"
proof -
  let ?r = "display_table (idle_host ''#f0f2f6'')
       [[''ID'', ''Name''], [''1'', ''Alice''], [''2'', ''Bob'']]
       (default_options\<lparr>edit_function := True\<rparr>)"
  have "keys_of (fst ?r) = [''rnd_table'', ''row_0'', ''row_1'', ''edit_1'', ''row_2'', ''edit_2'']"
    by code_simp
  with keys_distinct_within_one_call[of "idle_host ''#f0f2f6''"
       "[[''ID'', ''Name''], [''1'', ''Alice''], [''2'', ''Bob'']]"
       "default_options\<lparr>edit_function := True\<rparr>"]
  show ?thesis by blast
qed

text \<open>
  The claim as stated fails across calls: two tables drawn on one page hand the host
  the same keys.
\<close>

theorem keys_shared_between_calls_counterexample:
  "\<not> distinct (keys_of
     (fst (display_table (idle_host ''#f0f2f6'') [[''a'', ''b'']] default_options)
      @ fst (display_table (idle_host ''#f0f2f6'') [[''c'', ''d'']] default_options)))"
  by code_simp

subsection \<open>The Edit button of a row without visible cells\<close>




end
